theory Spec2Isabelle
  imports Main "HOL-Library.Sublist"
begin

section \<open>Python values\<close>

text \<open>
  The stock spreadsheet is read by pandas into a list of dictionaries. A cell is an
  integer or a string; \<open>dict.get\<close> of a missing key is \<open>None\<close>. Floating-point
  cells are outside this model. A Python \<open>str\<close> is modelled by its UTF-8 bytes
  (\<open>string\<close>): the source only compares strings, splits them at the ASCII full stop
  and deletes everything but the ASCII digits, and each of these gives the same result
  on the bytes as on the code points.
\<close>

datatype py_error = ValueError | TypeError | AttributeError | IndexError | StopIteration

datatype py_value = PyInt int | PyStr string | PyNone

subsection \<open>\<open>str(x)\<close>\<close>

definition digit_char :: "nat \<Rightarrow> char" where
  "digit_char d = ''0123456789'' ! d"

fun str_nat :: "nat \<Rightarrow> string" where
  "str_nat n = (if n < 10 then [digit_char n] else str_nat (n div 10) @ [digit_char (n mod 10)])"

declare str_nat.simps [simp del]

definition str_int :: "int \<Rightarrow> string" where
  "str_int i = (if i < 0 then CHR ''-'' # str_nat (nat (- i)) else str_nat (nat i))"

fun py_str :: "py_value \<Rightarrow> string" where
  "py_str (PyInt i) = str_int i"
| "py_str (PyStr s) = s"
| "py_str PyNone = ''None''"

subsection \<open>\<open>int(x)\<close>\<close>

text \<open>
  \<open>int\<close> of a string: surrounding whitespace is dropped, one sign may come first,
  then decimal digits, where single underscores may stand between two digits. Anything
  else is a \<open>ValueError\<close>. The whitespace \<open>int\<close> drops from an ASCII string is
  the tab, the line feed, the vertical tab, the form feed, the carriage return and the
  space (bytes \<open>09\<close> to \<open>0D\<close> and \<open>20\<close>); the separators \<open>1C\<close> to \<open>1F\<close>, which
  \<open>str.isspace\<close> accepts, are not among them. Only ASCII strings are modelled: the
  digits and the whitespace outside ASCII are not, and neither is the interpreter's
  configurable cap on the number of digits.
\<close>

definition is_digit :: "char \<Rightarrow> bool" where
  "is_digit c \<longleftrightarrow> c \<in> set ''0123456789''"

definition digit_val :: "char \<Rightarrow> nat" where
  "digit_val c = of_char c - 48"

definition is_space :: "char \<Rightarrow> bool" where
  "is_space c \<longleftrightarrow> c \<in> set [CHR 0x09, CHR 0x0A, CHR 0x0B, CHR 0x0C, CHR 0x0D, CHR 0x20]"

definition strip :: "string \<Rightarrow> string" where
  "strip s = rev (dropWhile is_space (rev (dropWhile is_space s)))"

fun int_digits :: "nat \<Rightarrow> string \<Rightarrow> nat option" where
  "int_digits acc [] = Some acc"
| "int_digits acc [c] = (if is_digit c then Some (10 * acc + digit_val c) else None)"
| "int_digits acc (c # d # cs) =
     (if is_digit c then int_digits (10 * acc + digit_val c) (d # cs)
      else if c = CHR ''_'' \<and> is_digit d then int_digits acc (d # cs)
      else None)"

definition int_of_str :: "string \<Rightarrow> py_error + int" where
  "int_of_str s =
     (let t = strip s;
          neg = (case t of [] \<Rightarrow> False | c # _ \<Rightarrow> c = CHR ''-'');
          body = (case t of [] \<Rightarrow> [] | c # cs \<Rightarrow> if c = CHR ''-'' \<or> c = CHR ''+'' then cs else t)
      in case body of
           [] \<Rightarrow> Inl ValueError
         | c # _ \<Rightarrow>
             if is_digit c then
               (case int_digits 0 body of
                  None \<Rightarrow> Inl ValueError
                | Some n \<Rightarrow> Inr (if neg then - int n else int n))
             else Inl ValueError)"

fun py_int :: "py_value \<Rightarrow> py_error + int" where
  "py_int (PyInt i) = Inr i"
| "py_int (PyStr s) = int_of_str s"
| "py_int PyNone = Inl TypeError"

subsection \<open>List operations\<close>

text \<open>\<open>lst.remove(x)\<close> deletes the first element equal to \<open>x\<close> and raises when there is none.\<close>

definition py_remove :: "'a list \<Rightarrow> 'a \<Rightarrow> py_error + 'a list" where
  "py_remove xs x = (if x \<in> set xs then Inr (remove1 x xs) else Inl ValueError)"

text \<open>\<open>lst[i]\<close>: an index from \<open>-len\<close> up to \<open>len - 1\<close>, read modulo the length.\<close>

definition py_index :: "'a list \<Rightarrow> int \<Rightarrow> py_error + 'a" where
  "py_index xs i =
     (if - int (length xs) \<le> i \<and> i < int (length xs)
      then Inr (xs ! nat (i mod int (length xs)))
      else Inl IndexError)"

text \<open>\<open>lst[i:j]\<close>: negative bounds count from the end, and both are clamped to the list.\<close>

definition slice_bound :: "nat \<Rightarrow> int \<Rightarrow> nat" where
  "slice_bound len i = (if i < 0 then nat (max 0 (int len + i)) else min len (nat i))"

definition py_slice :: "'a list \<Rightarrow> int \<Rightarrow> int \<Rightarrow> 'a list" where
  "py_slice xs i j = take (slice_bound (length xs) j - slice_bound (length xs) i)
                          (drop (slice_bound (length xs) i) xs)"

section \<open>seller.py\<close>

text \<open>
  One row of the spreadsheet. The fields are the values of the keys
  \<open>Kod\<close> (code), \<open>Kolichestvo\<close> (quantity) and \<open>Tsena\<close> (price), as
  \<open>watch.get\<close> returns them.
\<close>

record watch =
  Kod :: py_value
  Kolichestvo :: py_value
  Tsena :: py_value

record stock_payload =
  offer_id :: string
  stock :: int

record price_payload =
  auto_action_enabled :: string
  currency_code :: string
  price_offer_id :: string
  old_price :: string
  price :: string

subsection \<open>\<open>price_conversion\<close>\<close>

text \<open>\<open>s.split(".")\<close>: the segments of \<open>s\<close> between the separators, at least one.\<close>

fun split_on :: "char \<Rightarrow> string \<Rightarrow> string list" where
  "split_on sep [] = [[]]"
| "split_on sep (c # cs) =
     (if c = sep then [] # split_on sep cs
      else (case split_on sep cs of
              [] \<Rightarrow> [[c]]
            | seg # segs \<Rightarrow> (c # seg) # segs))"

text \<open>\<open>re.sub("[^0-9]", "", s)\<close>: every character outside \<open>0\<close>..\<open>9\<close> is deleted.\<close>

definition re_sub_non_digits :: "string \<Rightarrow> string" where
  "re_sub_non_digits s = filter is_digit s"

fun price_conversion :: "py_value \<Rightarrow> py_error + string" where
  "price_conversion (PyStr p) =
     (case py_index (split_on (CHR ''.'') p) 0 of
        Inl e \<Rightarrow> Inl e
      | Inr seg \<Rightarrow> Inr (re_sub_non_digits seg))"
| "price_conversion (PyInt i) = Inl AttributeError"
| "price_conversion PyNone = Inl AttributeError"

subsection \<open>\<open>create_stocks\<close>\<close>

text \<open>
  The quantity rule of \<open>create_stocks\<close>: the string form of the cell is compared
  with the two sentinels, and otherwise \<open>int\<close> is applied to the cell itself.
\<close>

definition resolve_stock :: "py_value \<Rightarrow> py_error + int" where
  "resolve_stock q =
     (let count = py_str q
      in if count = ''>10'' then Inr 100
         else if count = ''1'' then Inr 0
         else py_int q)"

text \<open>
  The first loop of \<open>create_stocks\<close>. It mutates \<open>offer_ids\<close>, so the list is
  threaded through and returned with the payloads.
\<close>

fun stocks_loop ::
  "watch list \<Rightarrow> string list \<Rightarrow> stock_payload list
     \<Rightarrow> py_error + (stock_payload list \<times> string list)" where
  "stocks_loop [] offer_ids stocks = Inr (stocks, offer_ids)"
| "stocks_loop (w # rest) offer_ids stocks =
     (if py_str (Kod w) \<in> set offer_ids then
        (case resolve_stock (Kolichestvo w) of
           Inl e \<Rightarrow> Inl e
         | Inr st \<Rightarrow>
             (case py_remove offer_ids (py_str (Kod w)) of
                Inl e \<Rightarrow> Inl e
              | Inr offer_ids' \<Rightarrow>
                  stocks_loop rest offer_ids'
                    (stocks @ [\<lparr>offer_id = py_str (Kod w), stock = st\<rparr>])))
      else stocks_loop rest offer_ids stocks)"

text \<open>
  \<open>create_stocks\<close> returns the payload list; the second component is \<open>offer_ids\<close>
  as the call leaves it for the caller.
\<close>

definition create_stocks ::
  "watch list \<Rightarrow> string list \<Rightarrow> py_error + (stock_payload list \<times> string list)" where
  "create_stocks watch_remnants offer_ids =
     (case stocks_loop watch_remnants offer_ids [] of
        Inl e \<Rightarrow> Inl e
      | Inr (stocks, offer_ids') \<Rightarrow>
          Inr (stocks @ map (\<lambda>i. \<lparr>offer_id = i, stock = 0\<rparr>) offer_ids', offer_ids'))"

subsection \<open>\<open>create_prices\<close>\<close>

fun prices_loop ::
  "watch list \<Rightarrow> string list \<Rightarrow> price_payload list \<Rightarrow> py_error + price_payload list" where
  "prices_loop [] offer_ids prices = Inr prices"
| "prices_loop (w # rest) offer_ids prices =
     (if py_str (Kod w) \<in> set offer_ids then
        (case price_conversion (Tsena w) of
           Inl e \<Rightarrow> Inl e
         | Inr p \<Rightarrow>
             prices_loop rest offer_ids
               (prices @ [\<lparr>auto_action_enabled = ''UNKNOWN'', currency_code = ''RUB'',
                           price_offer_id = py_str (Kod w), old_price = ''0'', price = p\<rparr>]))
      else prices_loop rest offer_ids prices)"

definition create_prices :: "watch list \<Rightarrow> string list \<Rightarrow> py_error + price_payload list" where
  "create_prices watch_remnants offer_ids = prices_loop watch_remnants offer_ids []"

subsection \<open>\<open>divide\<close>\<close>

text \<open>
  \<open>divide\<close> (here \<open>divide_py\<close>) is a generator. Calling it runs nothing; the first \<open>next\<close> builds
  \<open>range(0, len(lst), n)\<close>, which raises for \<open>n = 0\<close>, and every \<open>next\<close> yields the
  slice at the next index of the range until the range is used up. A range iterator is
  its next value and the number of values left.
\<close>

definition range_len :: "int \<Rightarrow> int \<Rightarrow> int \<Rightarrow> nat" where
  "range_len lo hi step =
     (if 0 < step \<and> lo < hi then nat (1 + (hi - 1 - lo) div step)
      else if step < 0 \<and> hi < lo then nat (1 + (lo - 1 - hi) div (- step))
      else 0)"

datatype 'a divide_gen =
    Unstarted "'a list" int
  | Suspended "'a list" int int nat
  | Exhausted

definition divide_py :: "'a list \<Rightarrow> int \<Rightarrow> 'a divide_gen" where
  "divide_py lst n = Unstarted lst n"

fun range_next :: "'a list \<Rightarrow> int \<Rightarrow> int \<Rightarrow> nat \<Rightarrow> (py_error + 'a list) \<times> 'a divide_gen" where
  "range_next lst n i 0 = (Inl StopIteration, Exhausted)"
| "range_next lst n i (Suc k) = (Inr (py_slice lst i (i + n)), Suspended lst n (i + n) k)"

fun gen_next :: "'a divide_gen \<Rightarrow> (py_error + 'a list) \<times> 'a divide_gen" where
  "gen_next (Unstarted lst n) =
     (if n = 0 then (Inl ValueError, Exhausted)
      else range_next lst n 0 (range_len 0 (int (length lst)) n))"
| "gen_next (Suspended lst n i k) = range_next lst n i k"
| "gen_next Exhausted = (Inl StopIteration, Exhausted)"

fun gen_size :: "'a divide_gen \<Rightarrow> nat" where
  "gen_size (Unstarted lst n) = Suc (range_len 0 (int (length lst)) n)"
| "gen_size (Suspended lst n i k) = k"
| "gen_size Exhausted = 0"

lemma gen_next_decreases:
  "gen_next g = (Inr chunk, g') \<Longrightarrow> gen_size g' < gen_size g"
  by (cases g; cases "gen_size g") (auto split: if_splits elim: range_next.elims)

text \<open>\<open>list(gen)\<close>: \<open>next\<close> until \<open>StopIteration\<close>; any other exception propagates.\<close>

function py_list :: "'a divide_gen \<Rightarrow> py_error + 'a list list" where
  "py_list g =
     (case gen_next g of
        (Inl e, g') \<Rightarrow> if e = StopIteration then Inr [] else Inl e
      | (Inr chunk, g') \<Rightarrow>
          (case py_list g' of Inl e \<Rightarrow> Inl e | Inr chunks \<Rightarrow> Inr (chunk # chunks)))"
  by pat_completeness auto
termination
  by (relation "measure gen_size") (auto dest: gen_next_decreases [OF sym])

declare py_list.simps [simp del]

section \<open>market.py\<close>

record item =
  count :: int
  item_type :: string
  updatedAt :: string

record market_stock =
  sku :: string
  warehouseId :: string
  items :: "item list"

subsection \<open>The clock\<close>

record datetime =
  year :: nat
  month :: nat
  day :: nat
  hour :: nat
  minute :: nat
  second :: nat
  microsecond :: nat

text \<open>
  The process reads the system clock; the model holds the answers the clock gives to
  successive readings and the number of readings made so far.
\<close>

record world =
  clock :: "nat \<Rightarrow> datetime"
  clock_reads :: nat

definition utcnow :: "world \<Rightarrow> datetime \<times> world" where
  "utcnow w = (clock w (clock_reads w), w\<lparr>clock_reads := Suc (clock_reads w)\<rparr>)"

fun zero_pad :: "nat \<Rightarrow> string \<Rightarrow> string" where
  "zero_pad width s = replicate (width - length s) (CHR ''0'') @ s"

definition isoformat :: "datetime \<Rightarrow> string" where
  "isoformat d =
     zero_pad 4 (str_nat (year d)) @ ''-'' @ zero_pad 2 (str_nat (month d)) @ ''-''
       @ zero_pad 2 (str_nat (day d)) @ ''T'' @ zero_pad 2 (str_nat (hour d)) @ '':''
       @ zero_pad 2 (str_nat (minute d)) @ '':'' @ zero_pad 2 (str_nat (second d))
       @ (if microsecond d = 0 then [] else ''.'' @ zero_pad 6 (str_nat (microsecond d)))"

subsection \<open>\<open>create_stocks\<close> of the partner API\<close>

fun market_stocks_loop ::
  "watch list \<Rightarrow> string list \<Rightarrow> string \<Rightarrow> string \<Rightarrow> market_stock list
     \<Rightarrow> py_error + (market_stock list \<times> string list)" where
  "market_stocks_loop [] offer_ids warehouse_id date stocks = Inr (stocks, offer_ids)"
| "market_stocks_loop (w # rest) offer_ids warehouse_id date stocks =
     (if py_str (Kod w) \<in> set offer_ids then
        (case resolve_stock (Kolichestvo w) of
           Inl e \<Rightarrow> Inl e
         | Inr st \<Rightarrow>
             (case py_remove offer_ids (py_str (Kod w)) of
                Inl e \<Rightarrow> Inl e
              | Inr offer_ids' \<Rightarrow>
                  market_stocks_loop rest offer_ids' warehouse_id date
                    (stocks @ [\<lparr>sku = py_str (Kod w), warehouseId = warehouse_id,
                                items = [\<lparr>count = st, item_type = ''FIT'',
                                          updatedAt = date\<rparr>]\<rparr>])))
      else market_stocks_loop rest offer_ids warehouse_id date stocks)"

definition market_create_stocks ::
  "watch list \<Rightarrow> string list \<Rightarrow> string \<Rightarrow> world
     \<Rightarrow> (py_error + (market_stock list \<times> string list)) \<times> world" where
  "market_create_stocks watch_remnants offer_ids warehouse_id w =
     (let (now, w') = utcnow w;
          date = isoformat (now\<lparr>microsecond := 0\<rparr>) @ ''Z''
      in (case market_stocks_loop watch_remnants offer_ids warehouse_id date [] of
            Inl e \<Rightarrow> Inl e
          | Inr (stocks, offer_ids') \<Rightarrow>
              Inr (stocks @ map (\<lambda>i. \<lparr>sku = i, warehouseId = warehouse_id,
                                        items = [\<lparr>count = 0, item_type = ''FIT'',
                                                  updatedAt = date\<rparr>]\<rparr>) offer_ids',
                   offer_ids'),
          w'))"

section \<open>Vocabulary of the statements\<close>

text \<open>\<open>str(watch.get(Kod))\<close>, the code of a record as every comparison of the source reads it.\<close>

abbreviation code_of :: "watch \<Rightarrow> string" where
  "code_of w \<equiv> py_str (Kod w)"

text \<open>The records of a list that are the first of their code, in the order of the list.\<close>

fun first_by_code :: "watch list \<Rightarrow> watch list" where
  "first_by_code [] = []"
| "first_by_code (w # ws) = w # filter (\<lambda>v. code_of v \<noteq> code_of w) (first_by_code ws)"

text \<open>
  A payload is the one emitted for a record when it carries the record's code and the
  count the quantity rule gives for the record's quantity.
\<close>

definition emitted_for :: "watch \<Rightarrow> stock_payload \<Rightarrow> bool" where
  "emitted_for w p \<longleftrightarrow>
     offer_id p = code_of w \<and> resolve_stock (Kolichestvo w) = Inr (stock p)"

text \<open>The partner-API payload that carries an offer id and a count.\<close>

definition market_payload :: "string \<Rightarrow> string \<Rightarrow> stock_payload \<Rightarrow> market_stock" where
  "market_payload warehouse_id date p =
     \<lparr>sku = offer_id p, warehouseId = warehouse_id,
      items = [\<lparr>count = stock p, item_type = ''FIT'', updatedAt = date\<rparr>]\<rparr>"

text \<open>The timestamp string made from the next reading of the clock.\<close>

definition call_date :: "world \<Rightarrow> string" where
  "call_date w = isoformat ((clock w (clock_reads w))\<lparr>microsecond := 0\<rparr>) @ ''Z''"





section \<open>Properties of \<open>price_conversion\<close>\<close>

lemma split_on_nonempty: "split_on sep s \<noteq> []"
  by (induction s) (auto split: list.splits)

lemma split_on_hd: "hd (split_on sep s) = takeWhile (\<lambda>c. c \<noteq> sep) s"
  by (induction s) (auto split: list.splits simp: split_on_nonempty)

lemma py_index_0: "xs \<noteq> [] \<Longrightarrow> py_index xs 0 = Inr (hd xs)"
  by (cases xs) (simp_all add: py_index_def)

lemma price_conversion_str:
  "price_conversion (PyStr s) = Inr (filter is_digit (takeWhile (\<lambda>c. c \<noteq> CHR ''.'') s))"
  by (simp add: py_index_0 split_on_nonempty split_on_hd re_sub_non_digits_def)

text \<open>
  C5. On every string, \<open>price_conversion\<close> returns the digits of the segment before
  the first full stop: the segment is \<open>takeWhile\<close> up to the first \<open>.\<close>, and the
  result keeps exactly its characters \<open>0\<close>..\<open>9\<close>, in order (so it is empty when the
  segment has no digit). The three documented examples are the price
  \<open>5'990.00\<close> followed by a space, the Cyrillic word for roubles and a full stop
  (result \<open>5990\<close>), the string \<open>5990\<close> (result \<open>5990\<close>) and the Cyrillic word with its
  full stop alone (result empty). The Cyrillic letters are written as their UTF-8 bytes
  \<open>D1 80 D1 83 D0 B1\<close>.
\<close>

theorem price_conversion_digits_before_dot:
  "price_conversion (PyStr s) = Inr (filter is_digit (takeWhile (\<lambda>c. c \<noteq> CHR ''.'') s))
   \<and> price_conversion
         (PyStr (''5'990.00 '' @ [CHR 0xD1, CHR 0x80, CHR 0xD1, CHR 0x83, CHR 0xD0, CHR 0xB1] @ ''.''))
       = Inr ''5990''
   \<and> price_conversion (PyStr ''5990'') = Inr ''5990''
   \<and> price_conversion (PyStr ([CHR 0xD1, CHR 0x80, CHR 0xD1, CHR 0x83, CHR 0xD0, CHR 0xB1] @ ''.''))
       = Inr []"
  by (simp add: price_conversion_str is_digit_def del: price_conversion.simps)

section \<open>Properties of \<open>divide\<close>\<close>

lemma py_slice_chunk:
  "py_slice xs (int i) (int i + int n) = take n (drop i xs)"
  by (auto simp: py_slice_def slice_bound_def min_def nat_add_distrib)

lemma py_list_Suspended:
  "py_list (Suspended lst n i k) =
     Inr (map (\<lambda>j. py_slice lst (i + int j * n) (i + int j * n + n)) [0..<k])"
proof (induction k arbitrary: i)
  case 0
  show ?case by (simp add: py_list.simps)
next
  case (Suc k)
  have "py_list (Suspended lst n i (Suc k)) =
          Inr (py_slice lst i (i + n) #
               map (\<lambda>j. py_slice lst (i + n + int j * n) (i + n + int j * n + n)) [0..<k])"
    by (subst py_list.simps) (simp add: Suc.IH)
  also have "map (\<lambda>j. py_slice lst (i + n + int j * n) (i + n + int j * n + n)) [0..<k] =
             map (\<lambda>j. py_slice lst (i + int j * n) (i + int j * n + n)) (map Suc [0..<k])"
    by (simp add: algebra_simps)
  finally show ?case
    by (simp add: upt_conv_Cons map_Suc_upt del: upt_Suc)
qed

lemma py_list_Unstarted:
  "n \<noteq> 0 \<Longrightarrow> py_list (Unstarted lst n) =
     py_list (Suspended lst n 0 (range_len 0 (int (length lst)) n))"
  by (subst (1 2) py_list.simps) simp

lemma range_len_pos:
  assumes n: "0 < n"
  shows "range_len 0 (int len) (int n) = (len + n - 1) div n"
proof (cases "len = 0")
  case True
  with n show ?thesis by (simp add: range_len_def)
next
  case False
  then have "int len - 1 = int (len - 1)" by simp
  then have "nat (1 + (int len - 1 - 0) div int n) = 1 + (len - 1) div n"
    by (simp add: zdiv_int [symmetric] nat_add_distrib del: of_nat_diff)
  moreover have "(len - 1 + n) div n = 1 + (len - 1) div n"
    using n div_add_self2 [of n "len - 1"] by simp
  moreover have "len + n - 1 = (len - 1) + n"
    using False by simp
  ultimately show ?thesis using n False by (simp add: range_len_def)
qed

lemma py_list_divide_pos:
  assumes m: "0 < m"
  shows "py_list (divide_py xs (int m)) =
     Inr (map (\<lambda>j. take m (drop (j * m) xs)) [0..<(length xs + m - 1) div m])"
proof -
  have "\<And>j. py_slice xs (int j * int m) (int j * int m + int m) = take m (drop (j * m) xs)"
    using py_slice_chunk [of xs "j * m" m for j] by simp
  then show ?thesis
    using m by (simp add: divide_py_def py_list_Unstarted py_list_Suspended range_len_pos)
qed

lemma concat_chunks: "concat (map (\<lambda>j. take n (drop (j * n) xs)) [0..<k]) = take (k * n) xs"
proof (induction k)
  case 0
  show ?case by simp
next
  case (Suc k)
  have "take (Suc k * n) xs = take (k * n + n) xs" by (simp add: add.commute)
  then show ?case using Suc by (simp add: take_add)
qed

lemma ceil_div_covers:
  assumes n: "0 < n"
  shows "len \<le> ((len + n - 1) div n) * (n::nat)"
proof -
  have "len + n - 1 < n + ((len + n - 1) div n) * n"
    using n by (rule dividend_less_div_times)
  then show ?thesis by simp
qed

lemma below_ceil_div:
  assumes n: "0 < n" and j: "j < (len + n - 1) div n"
  shows "j * n < (len::nat)"
proof -
  from j have "Suc j \<le> (len + n - 1) div n" by simp
  then have "Suc j * n \<le> len + n - 1"
    using n by (simp add: less_eq_div_iff_mult_less_eq del: mult_Suc)
  then show ?thesis using n by simp
qed

lemma full_below_ceil_div:
  "0 < n \<Longrightarrow> Suc j < (len + n - 1) div n \<Longrightarrow> Suc j * n \<le> (len::nat)"
  using below_ceil_div [of n "Suc j" len] by simp

lemma ceil_div_dvd:
  assumes n: "0 < n" and d: "n dvd len"
  shows "(len + n - 1) div n = len div (n::nat)"
proof -
  from d obtain q where q: "len = n * q" by (auto simp: dvd_def)
  have "(n * q + n - 1) div n = q"
    using n by (intro div_nat_eqI) simp_all
  then show ?thesis using n q by simp
qed

text \<open>
  C6. For a positive \<open>size\<close>, draining \<open>divide(items, size)\<close> raises nothing and
  yields the chunks \<open>cs\<close>: chunk \<open>j\<close> is the slice of \<open>items\<close> of length \<open>size\<close> that
  starts at \<open>j * size\<close>; their concatenation is \<open>items\<close>; there are
  \<open>ceil(len(items) / size)\<close> of them; every chunk but the last has length \<open>size\<close>
  and every chunk has between \<open>1\<close> and \<open>size\<close> elements; and when \<open>size\<close> divides
  \<open>len(items)\<close> there are \<open>len(items) / size\<close> chunks, each of length \<open>size\<close>. Three
  calls of \<open>next\<close> on \<open>divide([1, 2, 3], 2)\<close> give \<open>[1, 2]\<close>, then \<open>[3]\<close>, then
  \<open>StopIteration\<close>.
\<close>

theorem divide_chunks:
  assumes "0 < n"
  shows "(\<exists>cs. py_list (divide_py xs n) = Inr cs
           \<and> concat cs = xs
           \<and> length cs = (length xs + nat n - 1) div nat n
           \<and> (\<forall>j < length cs. cs ! j = take (nat n) (drop (j * nat n) xs))
           \<and> (\<forall>j. Suc j < length cs \<longrightarrow> length (cs ! j) = nat n)
           \<and> (\<forall>j < length cs. 0 < length (cs ! j) \<and> length (cs ! j) \<le> nat n)
           \<and> (nat n dvd length xs \<longrightarrow>
                 length cs = length xs div nat n \<and> (\<forall>j < length cs. length (cs ! j) = nat n)))
         \<and> (let (r1, g1) = gen_next (divide_py [1, 2, 3::int] 2);
                 (r2, g2) = gen_next g1;
                 (r3, g3) = gen_next g2
             in (r1, r2, r3)) = (Inr [1, 2], Inr [3], Inl StopIteration)"
proof -
  define m where "m = nat n"
  define k where "k = (length xs + m - 1) div m"
  define cs where "cs = map (\<lambda>j. take m (drop (j * m) xs)) [0..<k]"
  from assms have m: "0 < m" and n: "n = int m" by (simp_all add: m_def)
  have run: "py_list (divide_py xs n) = Inr cs"
    using m by (simp add: n py_list_divide_pos cs_def k_def)
  have len: "length cs = k" by (simp add: cs_def)
  have nth: "cs ! j = take m (drop (j * m) xs)" if "j < k" for j
    using that by (simp add: cs_def)
  have cat: "concat cs = xs"
    using ceil_div_covers [OF m, of "length xs"] by (simp add: cs_def concat_chunks k_def)
  have full: "length (cs ! j) = m" if "Suc j < k" for j
  proof -
    from that have "Suc j * m \<le> length xs"
      unfolding k_def by (rule full_below_ceil_div [OF m])
    then have "m \<le> length xs - j * m" by simp
    then show ?thesis using that by (simp add: nth)
  qed
  have bounds: "0 < length (cs ! j) \<and> length (cs ! j) \<le> m" if "j < k" for j
    using that below_ceil_div [OF m, of j "length xs"] m by (simp add: nth k_def)
  have even: "length cs = length xs div m \<and> (\<forall>j < length cs. length (cs ! j) = m)"
    if d: "m dvd length xs"
  proof -
    have k: "k = length xs div m" unfolding k_def by (rule ceil_div_dvd [OF m d])
    have "length (cs ! j) = m" if "j < k" for j
    proof -
      from that have "Suc j \<le> length xs div m" by (simp add: k)
      then have "Suc j * m \<le> length xs"
        using m by (simp add: less_eq_div_iff_mult_less_eq del: mult_Suc)
      then have "m \<le> length xs - j * m" by simp
      then show ?thesis using that by (simp add: nth)
    qed
    then show ?thesis by (simp add: len k)
  qed
  have example:
    "(let (r1, g1) = gen_next (divide_py [1, 2, 3::int] 2);
          (r2, g2) = gen_next g1;
          (r3, g3) = gen_next g2
      in (r1, r2, r3)) = (Inr [1, 2], Inr [3], Inl StopIteration)"
    by (simp add: divide_py_def range_len_def py_slice_def slice_bound_def eval_nat_numeral)
  have "\<exists>cs. py_list (divide_py xs n) = Inr cs
           \<and> concat cs = xs
           \<and> length cs = (length xs + nat n - 1) div nat n
           \<and> (\<forall>j < length cs. cs ! j = take (nat n) (drop (j * nat n) xs))
           \<and> (\<forall>j. Suc j < length cs \<longrightarrow> length (cs ! j) = nat n)
           \<and> (\<forall>j < length cs. 0 < length (cs ! j) \<and> length (cs ! j) \<le> nat n)
           \<and> (nat n dvd length xs \<longrightarrow>
                 length cs = length xs div nat n \<and> (\<forall>j < length cs. length (cs ! j) = nat n))"
    using run cat len nth full bounds even
    unfolding m_def [symmetric] k_def [symmetric] by blast
  with example show ?thesis by blast
qed

theorem divide_chunks_witness:
  "(0::int) < 2
   \<and> (\<exists>cs. py_list (divide_py [1, 2, 3, 4::int] 2) = Inr cs \<and> concat cs = [1, 2, 3, 4]
          \<and> length cs = 2 \<and> length (cs ! 0) = 2 \<and> length (cs ! 1) = 2)"
proof -
  have pos: "(0::int) < 2" by simp
  from divide_chunks [OF pos, of "[1, 2, 3, 4::int]"]
  obtain cs where cs: "py_list (divide_py [1, 2, 3, 4::int] 2) = Inr cs"
      "concat cs = [1, 2, 3, 4]"
      "length cs = (length [1, 2, 3, 4::int] + nat 2 - 1) div nat 2"
      "\<forall>j. Suc j < length cs \<longrightarrow> length (cs ! j) = nat 2"
      "nat 2 dvd length [1, 2, 3, 4::int] \<longrightarrow>
         length cs = length [1, 2, 3, 4::int] div nat 2 \<and> (\<forall>j < length cs. length (cs ! j) = nat 2)"
    by blast
  from cs(3) have len: "length cs = 2" by simp
  from cs(5) len have "length (cs ! 0) = 2" "length (cs ! 1) = 2" by simp_all
  with cs(1,2) len pos show ?thesis by blast
qed

text \<open>
  C7, as the code has it. A \<open>size\<close> of zero makes \<open>range\<close> raise \<open>ValueError\<close> when
  the generator is first advanced. A negative \<open>size\<close> raises nothing: the range
  \<open>range(0, len(items), size)\<close> is empty and the generator yields no chunk.
\<close>

theorem divide_nonpositive:
  "py_list (divide_py xs 0) = Inl ValueError
   \<and> gen_next (divide_py xs 0) = (Inl ValueError, Exhausted)
   \<and> (n < 0 \<longrightarrow> py_list (divide_py xs n) = Inr [])"
  by (simp add: divide_py_def py_list.simps range_len_def)

theorem divide_nonpositive_witness:
  "(- 2::int) < 0 \<and> py_list (divide_py [1, 2, 3::int] (- 2)) = Inr []"
  using divide_nonpositive [of "[1, 2, 3::int]" "- 2"] by simp

text \<open>
  The claim that every \<open>size <= 0\<close> ends in an error fails at \<open>size = -1\<close>: the first
  \<open>next\<close> on \<open>divide([1, 2, 3], -1)\<close> reports plain exhaustion, and \<open>list\<close> of the
  generator is the empty list.
\<close>

theorem divide_negative_size_no_error:
  "(- 1::int) \<le> 0
   \<and> gen_next (divide_py [1, 2, 3::int] (- 1)) = (Inl StopIteration, Exhausted)
   \<and> py_list (divide_py [1, 2, 3::int] (- 1)) = Inr []"
  by (simp add: divide_py_def py_list.simps range_len_def)

section \<open>Properties of \<open>create_stocks\<close> and \<open>create_prices\<close>\<close>

lemma filter_neq_absent: "x \<notin> set xs \<Longrightarrow> filter (\<lambda>y. y \<noteq> x) xs = xs"
  by (induction xs) auto

lemma remove1_distinct_filter: "distinct xs \<Longrightarrow> remove1 x xs = filter (\<lambda>y. y \<noteq> x) xs"
  by (induction xs) (auto simp: filter_neq_absent)

lemma set_first_by_code: "set (first_by_code ws) \<subseteq> set ws"
  by (induction ws) auto

lemma first_by_code_distinct: "distinct (map code_of (first_by_code ws))"
  by (induction ws) (auto simp: distinct_map_filter)

lemma filter_code_absent:
  "c \<notin> code_of ` set ws \<Longrightarrow> filter (\<lambda>v. code_of v \<noteq> c) ws = ws"
  by (induction ws) auto

lemma first_by_code_id: "distinct (map code_of ws) \<Longrightarrow> first_by_code ws = ws"
  by (induction ws) (auto simp: filter_code_absent)

lemma stocks_loop_distinct:
  assumes "distinct ids" and "stocks_loop ws ids acc = Inr (out, ids')"
  shows "ids' = filter (\<lambda>i. i \<notin> code_of ` set ws) ids
       \<and> (\<exists>M. out = acc @ M
            \<and> list_all2 emitted_for (filter (\<lambda>w. code_of w \<in> set ids) (first_by_code ws)) M)"
  using assms
proof (induction ws arbitrary: ids acc)
  case Nil
  then show ?case by simp
next
  case (Cons w ws)
  show ?case
  proof (cases "code_of w \<in> set ids")
    case True
    with Cons.prems obtain st where st: "resolve_stock (Kolichestvo w) = Inr st"
      and run: "stocks_loop ws (remove1 (code_of w) ids)
                  (acc @ [\<lparr>offer_id = code_of w, stock = st\<rparr>]) = Inr (out, ids')"
      by (auto simp: py_remove_def split: sum.splits)
    have d: "distinct (remove1 (code_of w) ids)" using Cons.prems(1) by simp
    from Cons.IH [OF d run] obtain M where
      ids': "ids' = filter (\<lambda>i. i \<notin> code_of ` set ws) (remove1 (code_of w) ids)"
      and out: "out = (acc @ [\<lparr>offer_id = code_of w, stock = st\<rparr>]) @ M"
      and M: "list_all2 emitted_for
                (filter (\<lambda>v. code_of v \<in> set (remove1 (code_of w) ids)) (first_by_code ws)) M"
      by blast
    have "ids' = filter (\<lambda>i. i \<notin> code_of ` set (w # ws)) ids"
      using ids' Cons.prems(1) by (simp add: remove1_distinct_filter conj_commute)
    moreover have "filter (\<lambda>v. code_of v \<in> set ids) (first_by_code (w # ws)) =
        w # filter (\<lambda>v. code_of v \<in> set (remove1 (code_of w) ids)) (first_by_code ws)"
      using True Cons.prems(1) by (auto simp: conj_commute intro: filter_cong)
    moreover have "emitted_for w \<lparr>offer_id = code_of w, stock = st\<rparr>"
      by (simp add: emitted_for_def st)
    ultimately show ?thesis using out M by simp
  next
    case False
    with Cons.prems have run: "stocks_loop ws ids acc = Inr (out, ids')" by simp
    from Cons.IH [OF Cons.prems(1) run] obtain M where
      ids': "ids' = filter (\<lambda>i. i \<notin> code_of ` set ws) ids"
      and out: "out = acc @ M"
      and M: "list_all2 emitted_for (filter (\<lambda>v. code_of v \<in> set ids) (first_by_code ws)) M"
      by blast
    have "ids' = filter (\<lambda>i. i \<notin> code_of ` set (w # ws)) ids"
      using ids' False by (auto intro: filter_cong)
    moreover have "filter (\<lambda>v. code_of v \<in> set ids) (first_by_code (w # ws)) =
        filter (\<lambda>v. code_of v \<in> set ids) (first_by_code ws)"
      using False by (auto intro: filter_cong)
    ultimately show ?thesis using out M by simp
  qed
qed

lemma market_stocks_loop_eq:
  "market_stocks_loop ws ids wh d (map (market_payload wh d) acc) =
     map_sum id (map_prod (map (market_payload wh d)) id) (stocks_loop ws ids acc)"
proof (induction ws arbitrary: ids acc)
  case Nil
  show ?case by simp
next
  case (Cons w ws)
  have step: "map (market_payload wh d) acc
                @ [\<lparr>sku = code_of w, warehouseId = wh,
                     items = [\<lparr>count = st, item_type = ''FIT'', updatedAt = d\<rparr>]\<rparr>]
              = map (market_payload wh d) (acc @ [\<lparr>offer_id = code_of w, stock = st\<rparr>])" for st
    by (simp add: market_payload_def)
  show ?case
    by (simp add: py_remove_def step Cons.IH del: map_append split: sum.splits)
qed

lemma market_create_stocks_eq:
  "market_create_stocks ws ids wh w =
     (map_sum id (map_prod (map (market_payload wh (call_date w))) id) (create_stocks ws ids),
      w\<lparr>clock_reads := Suc (clock_reads w)\<rparr>)"
proof -
  have zero: "map (\<lambda>i. \<lparr>sku = i, warehouseId = wh,
                         items = [\<lparr>count = 0, item_type = ''FIT'', updatedAt = d\<rparr>]\<rparr>) b
              = map (market_payload wh d) (map (\<lambda>i. \<lparr>offer_id = i, stock = 0\<rparr>) b)" for d b
    by (simp add: market_payload_def)
  have loop: "market_stocks_loop ws ids wh d [] =
      map_sum id (map_prod (map (market_payload wh d)) id) (stocks_loop ws ids [])" for d
    using market_stocks_loop_eq [of ws ids wh d "[]"] by simp
  show ?thesis
    by (simp add: market_create_stocks_def create_stocks_def utcnow_def call_date_def Let_def
          loop zero del: map_map split: sum.splits prod.splits)
qed

lemma market_create_stocks_Inr:
  assumes "market_create_stocks ws ids wh w = (Inr (mout, ids'), w')"
  shows "\<exists>out. create_stocks ws ids = Inr (out, ids')
           \<and> mout = map (market_payload wh (call_date w)) out
           \<and> w' = w\<lparr>clock_reads := Suc (clock_reads w)\<rparr>"
  using assms unfolding market_create_stocks_eq
  by (cases "create_stocks ws ids") auto

lemma image_Collect_neq: "f ` {v \<in> A. f v \<noteq> c} = f ` A - {c}"
  by auto

lemma codes_first_by_code: "code_of ` set (first_by_code ws) = code_of ` set ws"
proof (induction ws)
  case Nil
  show ?case by simp
next
  case (Cons w ws)
  have "code_of ` {v \<in> set (first_by_code ws). code_of v \<noteq> code_of w}
          = code_of ` set (first_by_code ws) - {code_of w}"
    by (rule image_Collect_neq)
  then show ?case using Cons by auto
qed

lemma emitted_ids: "list_all2 emitted_for ms M \<Longrightarrow> map offer_id M = map code_of ms"
  by (induction rule: list_all2_induct) (simp_all add: emitted_for_def)

lemma create_stocks_distinct:
  assumes "distinct ids" and "create_stocks ws ids = Inr (out, ids')"
  shows "ids' = filter (\<lambda>i. i \<notin> code_of ` set ws) ids
       \<and> (\<exists>M. out = M @ map (\<lambda>i. \<lparr>offer_id = i, stock = 0\<rparr>) ids'
            \<and> list_all2 emitted_for (filter (\<lambda>w. code_of w \<in> set ids) (first_by_code ws)) M)"
proof -
  from assms(2) obtain stocks where loop: "stocks_loop ws ids [] = Inr (stocks, ids')"
    and out: "out = stocks @ map (\<lambda>i. \<lparr>offer_id = i, stock = 0\<rparr>) ids'"
    by (auto simp: create_stocks_def split: sum.splits)
  from stocks_loop_distinct [OF assms(1) loop] out show ?thesis by simp
qed

lemma once_in_distinct:
  "distinct (map f xs) \<Longrightarrow> i \<in> f ` set xs \<Longrightarrow> length (filter (\<lambda>p. f p = i) xs) = 1"
proof (induction xs)
  case Nil
  then show ?case by simp
next
  case (Cons x xs)
  show ?case
  proof (cases "f x = i")
    case True
    with Cons.prems have "i \<notin> f ` set xs" by simp
    then have "\<forall>p \<in> set xs. f p \<noteq> i" by blast
    then have "filter (\<lambda>p. f p = i) xs = []" by simp
    with True show ?thesis by simp
  next
    case False
    with Cons show ?thesis by auto
  qed
qed

lemma create_stocks_ids_distinct:
  assumes d: "distinct ids" and run: "create_stocks ws ids = Inr (out, ids')"
  shows "distinct (map offer_id out) \<and> set (map offer_id out) = set ids"
proof -
  let ?ms = "filter (\<lambda>w. code_of w \<in> set ids) (first_by_code ws)"
  from create_stocks_distinct [OF d run] obtain M where
    ids': "ids' = filter (\<lambda>i. i \<notin> code_of ` set ws) ids"
    and out: "out = M @ map (\<lambda>i. \<lparr>offer_id = i, stock = 0\<rparr>) ids'"
    and M: "list_all2 emitted_for ?ms M"
    by blast
  have ids_out: "map offer_id out = map code_of ?ms @ ids'"
    by (simp add: out emitted_ids [OF M] comp_def)
  have "distinct (map code_of ?ms)"
    by (rule distinct_map_filter) (rule first_by_code_distinct)
  moreover have "distinct ids'" using d by (simp add: ids')
  moreover have "set (map code_of ?ms) \<subseteq> code_of ` set ws"
    using set_first_by_code [of ws] by auto
  then have "set (map code_of ?ms) \<inter> set ids' = {}" by (auto simp: ids')
  ultimately have "distinct (map offer_id out)" by (simp add: ids_out)
  moreover have "code_of ` {v \<in> set (first_by_code ws). code_of v \<in> set ids}
                   = set ids \<inter> code_of ` set (first_by_code ws)"
    by blast
  then have "set (map code_of ?ms) = set ids \<inter> code_of ` set ws"
    by (simp add: codes_first_by_code)
  then have "set (map offer_id out) = set ids"
    unfolding ids_out by (auto simp: ids')
  ultimately show ?thesis by simp
qed

text \<open>
  C1, as the code has it. Let the codes of the remnants be pairwise distinct and the
  offer ids be pairwise distinct as well. Then the list that \<open>create_stocks\<close> returns,
  in \<open>seller.py\<close> and in \<open>market.py\<close>, has as many payloads as there are remnants
  whose code is an offer id, plus offer ids that are the code of no remnant; and every
  offer id is the identifier of exactly one payload.
\<close>

theorem create_stocks_length_and_coverage:
  assumes "distinct (map code_of ws)" and "distinct ids"
  shows "(\<forall>out ids'. create_stocks ws ids = Inr (out, ids') \<longrightarrow>
            length out = length (filter (\<lambda>w. code_of w \<in> set ids) ws)
                         + length (filter (\<lambda>i. i \<notin> code_of ` set ws) ids)
            \<and> (\<forall>i \<in> set ids. length (filter (\<lambda>p. offer_id p = i) out) = 1))
       \<and> (\<forall>mout ids' wd'. market_create_stocks ws ids wh wd = (Inr (mout, ids'), wd') \<longrightarrow>
            length mout = length (filter (\<lambda>w. code_of w \<in> set ids) ws)
                          + length (filter (\<lambda>i. i \<notin> code_of ` set ws) ids)
            \<and> (\<forall>i \<in> set ids. length (filter (\<lambda>q. sku q = i) mout) = 1))"
proof -
  have seller: "length out = length (filter (\<lambda>w. code_of w \<in> set ids) ws)
                         + length (filter (\<lambda>i. i \<notin> code_of ` set ws) ids)
            \<and> (\<forall>i \<in> set ids. length (filter (\<lambda>p. offer_id p = i) out) = 1)"
    if run: "create_stocks ws ids = Inr (out, ids')" for out ids'
  proof -
    from create_stocks_distinct [OF assms(2) run] obtain M where
      ids': "ids' = filter (\<lambda>i. i \<notin> code_of ` set ws) ids"
      and out: "out = M @ map (\<lambda>i. \<lparr>offer_id = i, stock = 0\<rparr>) ids'"
      and M: "list_all2 emitted_for (filter (\<lambda>w. code_of w \<in> set ids) (first_by_code ws)) M"
      by blast
    have "length M = length (filter (\<lambda>w. code_of w \<in> set ids) ws)"
      using list_all2_lengthD [OF M] by (simp add: first_by_code_id [OF assms(1)])
    then have len: "length out = length (filter (\<lambda>w. code_of w \<in> set ids) ws)
                         + length (filter (\<lambda>i. i \<notin> code_of ` set ws) ids)"
      by (simp add: out ids')
    from create_stocks_ids_distinct [OF assms(2) run]
    have "distinct (map offer_id out)" and "set ids = offer_id ` set out" by auto
    then have "\<forall>i \<in> set ids. length (filter (\<lambda>p. offer_id p = i) out) = 1"
      using once_in_distinct [of offer_id out] by blast
    with len show ?thesis by simp
  qed
  have market: "length mout = length (filter (\<lambda>w. code_of w \<in> set ids) ws)
                          + length (filter (\<lambda>i. i \<notin> code_of ` set ws) ids)
            \<and> (\<forall>i \<in> set ids. length (filter (\<lambda>q. sku q = i) mout) = 1)"
    if run: "market_create_stocks ws ids wh wd = (Inr (mout, ids'), wd')" for mout ids' wd'
  proof -
    from market_create_stocks_Inr [OF run] obtain out where
      s: "create_stocks ws ids = Inr (out, ids')"
      and mout: "mout = map (market_payload wh (call_date wd)) out"
      by blast
    have "filter (\<lambda>q. sku q = i) mout
            = map (market_payload wh (call_date wd)) (filter (\<lambda>p. offer_id p = i) out)" for i
      by (simp add: mout filter_map comp_def market_payload_def)
    then show ?thesis using seller [OF s] by (simp add: mout)
  qed
  from seller market show ?thesis by blast
qed

lemmas eval_defs = create_stocks_def resolve_stock_def py_remove_def str_int_def str_nat.simps
  digit_char_def

theorem create_stocks_length_and_coverage_witness:
  "distinct (map code_of [\<lparr>Kod = PyInt 69785, Kolichestvo = PyStr ''>10'', Tsena = PyStr ''5990.00''\<rparr>])
   \<and> distinct [''69785'', ''99999'']
   \<and> (\<exists>out ids'.
         create_stocks [\<lparr>Kod = PyInt 69785, Kolichestvo = PyStr ''>10'', Tsena = PyStr ''5990.00''\<rparr>]
           [''69785'', ''99999''] = Inr (out, ids')
         \<and> length out = 2
         \<and> length (filter (\<lambda>p. offer_id p = ''69785'') out) = 1
         \<and> length (filter (\<lambda>p. offer_id p = ''99999'') out) = 1)"
proof -
  let ?ws = "[\<lparr>Kod = PyInt 69785, Kolichestvo = PyStr ''>10'', Tsena = PyStr ''5990.00''\<rparr>]"
  let ?ids = "[''69785'', ''99999'']"
  have d1: "distinct (map code_of ?ws)" by simp
  have d2: "distinct ?ids" by simp
  obtain out ids' where run: "create_stocks ?ws ?ids = Inr (out, ids')"
    by (simp add: eval_defs)
  from create_stocks_length_and_coverage [OF d1 d2] run
  have len: "length out = length (filter (\<lambda>w. code_of w \<in> set ?ids) ?ws)
                         + length (filter (\<lambda>i. i \<notin> code_of ` set ?ws) ?ids)"
    and once: "\<forall>i \<in> set ?ids. length (filter (\<lambda>p. offer_id p = i) out) = 1"
    by blast+
  from len have "length out = 2" by (simp add: str_int_def str_nat.simps digit_char_def)
  moreover from once have "length (filter (\<lambda>p. offer_id p = ''69785'') out) = 1"
    and "length (filter (\<lambda>p. offer_id p = ''99999'') out) = 1" by simp_all
  ultimately show ?thesis using d1 d2 run by blast
qed

text \<open>
  As C1 is stated, for every list of offer ids, it fails on a list that repeats an id.
  With one remnant of code \<open>7\<close> and the offer ids \<open>7, 7\<close>, one remnant is matched
  and no offer id is the code of no remnant, which makes one; the returned list has two
  payloads, and both carry the offer id \<open>7\<close>.
\<close>

theorem create_stocks_repeated_offer_id:
  "distinct (map code_of [\<lparr>Kod = PyInt 7, Kolichestvo = PyInt 5, Tsena = PyStr ''10.00''\<rparr>])
   \<and> create_stocks [\<lparr>Kod = PyInt 7, Kolichestvo = PyInt 5, Tsena = PyStr ''10.00''\<rparr>] [''7'', ''7'']
       = Inr ([\<lparr>offer_id = ''7'', stock = 5\<rparr>, \<lparr>offer_id = ''7'', stock = 0\<rparr>], [''7''])
   \<and> length (filter (\<lambda>w. code_of w \<in> set [''7'', ''7''])
               [\<lparr>Kod = PyInt 7, Kolichestvo = PyInt 5, Tsena = PyStr ''10.00''\<rparr>])
       + length (filter (\<lambda>i. i \<notin> code_of ` set [\<lparr>Kod = PyInt 7, Kolichestvo = PyInt 5,
                                                   Tsena = PyStr ''10.00''\<rparr>]) [''7'', ''7''])
       = 1
   \<and> length [\<lparr>offer_id = ''7'', stock = 5\<rparr>, \<lparr>offer_id = ''7'', stock = 0\<rparr>] = 2
   \<and> length (filter (\<lambda>p. offer_id p = ''7'')
               [\<lparr>offer_id = ''7'', stock = 5\<rparr>, \<lparr>offer_id = ''7'', stock = 0\<rparr>]) = 2"
  by (simp add: eval_defs)




lemma prices_loop_no_match:
  "\<forall>w \<in> set ws. code_of w \<notin> set ids \<Longrightarrow> prices_loop ws ids acc = Inr acc"
  by (induction ws) auto




text \<open>
  C8. One call of \<open>create_stocks\<close> of the partner API reads the clock once, and every
  payload of the returned list, for a matched remnant or for a stale offer id, has one
  item whose \<open>updatedAt\<close> is the string made from that reading.
\<close>

theorem market_create_stocks_single_timestamp:
  assumes "market_create_stocks ws ids wh wd = (Inr (mout, ids'), wd')"
  shows "clock_reads wd' = Suc (clock_reads wd) \<and> clock wd' = clock wd
       \<and> (\<forall>q \<in> set mout. map updatedAt (items q) = [call_date wd])"
proof -
  from market_create_stocks_Inr [OF assms] obtain out where
    "mout = map (market_payload wh (call_date wd)) out"
    and "wd' = wd\<lparr>clock_reads := Suc (clock_reads wd)\<rparr>"
    by blast
  then show ?thesis by (auto simp: market_payload_def)
qed

theorem market_create_stocks_single_timestamp_witness:
  "\<exists>mout ids' wd'.
     market_create_stocks
       [\<lparr>Kod = PyInt 69785, Kolichestvo = PyStr ''>10'', Tsena = PyStr ''5990.00''\<rparr>]
       [''69785'', ''99999''] ''12''
       \<lparr>clock = (\<lambda>n. \<lparr>year = 2024, month = 5, day = 7, hour = 9, minute = 3, second = n,
                        microsecond = 250000\<rparr>),
        clock_reads = 41\<rparr>
     = (Inr (mout, ids'), wd')
     \<and> clock_reads wd' = 42
     \<and> map sku mout = [''69785'', ''99999'']
     \<and> map (\<lambda>q. map updatedAt (items q)) mout
         = [[''2024-05-07T09:03:41Z''], [''2024-05-07T09:03:41Z'']]"
proof -
  let ?ws = "[\<lparr>Kod = PyInt 69785, Kolichestvo = PyStr ''>10'', Tsena = PyStr ''5990.00''\<rparr>]"
  let ?wd = "\<lparr>clock = (\<lambda>n. \<lparr>year = 2024, month = 5, day = 7, hour = 9, minute = 3, second = n,
                        microsecond = 250000\<rparr>),
        clock_reads = 41\<rparr>"
  obtain mout ids' wd' where
    run: "market_create_stocks ?ws [''69785'', ''99999''] ''12'' ?wd = (Inr (mout, ids'), wd')"
    and skus: "map sku mout = [''69785'', ''99999'']"
    by (simp add: market_create_stocks_eq eval_defs market_payload_def)
  have date: "call_date ?wd = ''2024-05-07T09:03:41Z''"
    by (simp add: call_date_def isoformat_def str_nat.simps digit_char_def)
  from skus have two: "length mout = 2" by (metis length_map length_Cons list.size(3) numeral_2_eq_2)
  from market_create_stocks_single_timestamp [OF run]
  have "clock_reads wd' = 42" and "\<forall>q \<in> set mout. map updatedAt (items q) = [call_date ?wd]"
    by simp_all
  then have "clock_reads wd' = 42"
    and "map (\<lambda>q. map updatedAt (items q)) mout = map (\<lambda>q. [''2024-05-07T09:03:41Z'']) mout"
    by (simp_all add: date)
  moreover have "map (\<lambda>q. [''2024-05-07T09:03:41Z'']) mout
                   = [[''2024-05-07T09:03:41Z''], [''2024-05-07T09:03:41Z'']]"
    using two by (cases mout; cases "tl mout") auto
  ultimately show ?thesis using run skus by force
qed

text \<open>
  C10, as the code has it. When the offer ids are pairwise distinct and \<open>create_stocks\<close>
  has returned, \<open>create_prices\<close> on the same remnants and on the offer ids as
  \<open>create_stocks\<close> left them returns the empty list.
\<close>

theorem prices_after_stocks_empty:
  assumes "distinct ids" and "create_stocks ws ids = Inr (out, ids')"
  shows "create_prices ws ids' = Inr []"
proof -
  from create_stocks_distinct [OF assms]
  have "ids' = filter (\<lambda>i. i \<notin> code_of ` set ws) ids" by simp
  then have "\<forall>w \<in> set ws. code_of w \<notin> set ids'" by simp
  then show ?thesis unfolding create_prices_def by (rule prices_loop_no_match)
qed

theorem prices_after_stocks_empty_witness:
  "distinct [''69785'', ''99999'']
   \<and> create_stocks [\<lparr>Kod = PyInt 69785, Kolichestvo = PyStr ''>10'', Tsena = PyStr ''5990.00''\<rparr>]
         [''69785'', ''99999'']
       = Inr ([\<lparr>offer_id = ''69785'', stock = 100\<rparr>, \<lparr>offer_id = ''99999'', stock = 0\<rparr>],
              [''99999''])
   \<and> create_prices [\<lparr>Kod = PyInt 69785, Kolichestvo = PyStr ''>10'', Tsena = PyStr ''5990.00''\<rparr>]
         [''99999'']
       = Inr []"
proof -
  have d: "distinct [''69785'', ''99999'']" by simp
  have run: "create_stocks
         [\<lparr>Kod = PyInt 69785, Kolichestvo = PyStr ''>10'', Tsena = PyStr ''5990.00''\<rparr>]
         [''69785'', ''99999'']
       = Inr ([\<lparr>offer_id = ''69785'', stock = 100\<rparr>, \<lparr>offer_id = ''99999'', stock = 0\<rparr>],
              [''99999''])"
    by (simp add: eval_defs)
  from prices_after_stocks_empty [OF d run] d run show ?thesis by simp
qed

text \<open>
  As C10 is stated, for every list of offer ids, it fails on a list that repeats an id:
  with one remnant of code \<open>7\<close> and the offer ids \<open>7, 7\<close>, \<open>create_stocks\<close> removes
  one \<open>7\<close> and leaves the other, and \<open>create_prices\<close> on what is left returns a
  payload for \<open>7\<close>.
\<close>

theorem prices_after_stocks_repeated_offer_id:
  "create_stocks [\<lparr>Kod = PyInt 7, Kolichestvo = PyInt 5, Tsena = PyStr ''10.00''\<rparr>] [''7'', ''7'']
     = Inr ([\<lparr>offer_id = ''7'', stock = 5\<rparr>, \<lparr>offer_id = ''7'', stock = 0\<rparr>], [''7''])
   \<and> create_prices [\<lparr>Kod = PyInt 7, Kolichestvo = PyInt 5, Tsena = PyStr ''10.00''\<rparr>] [''7'']
     = Inr [\<lparr>auto_action_enabled = ''UNKNOWN'', currency_code = ''RUB'', price_offer_id = ''7'',
             old_price = ''0'', price = ''10''\<rparr>]"
  by (simp add: eval_defs create_prices_def price_conversion_str is_digit_def
        del: price_conversion.simps)

text \<open>
  C4, as the code has it. When the offer ids are pairwise distinct, the list
  \<open>create_stocks\<close> returns is, first, the payloads emitted for the remnants whose code
  is an offer id, each remnant the first of its code, in the order of the remnants
  list; then the payloads of count \<open>0\<close> for the offer ids that are the code of no
  remnant, in the order of the offer ids. The partner API's list is the same list, each
  payload in the partner API's shape.
\<close>

theorem create_stocks_order:
  assumes "distinct ids"
  shows "(\<forall>out ids'. create_stocks ws ids = Inr (out, ids') \<longrightarrow>
            (\<exists>M. out = M @ map (\<lambda>i. \<lparr>offer_id = i, stock = 0\<rparr>)
                              (filter (\<lambda>i. i \<notin> code_of ` set ws) ids)
               \<and> list_all2 emitted_for
                    (filter (\<lambda>w. code_of w \<in> set ids) (first_by_code ws)) M))
       \<and> (\<forall>mout ids' wd'. market_create_stocks ws ids wh wd = (Inr (mout, ids'), wd') \<longrightarrow>
            (\<exists>M. mout = map (market_payload wh (call_date wd))
                          (M @ map (\<lambda>i. \<lparr>offer_id = i, stock = 0\<rparr>)
                                 (filter (\<lambda>i. i \<notin> code_of ` set ws) ids))
               \<and> list_all2 emitted_for
                    (filter (\<lambda>w. code_of w \<in> set ids) (first_by_code ws)) M))"
proof -
  have seller: "\<exists>M. out = M @ map (\<lambda>i. \<lparr>offer_id = i, stock = 0\<rparr>)
                              (filter (\<lambda>i. i \<notin> code_of ` set ws) ids)
               \<and> list_all2 emitted_for
                    (filter (\<lambda>w. code_of w \<in> set ids) (first_by_code ws)) M"
    if "create_stocks ws ids = Inr (out, ids')" for out ids'
    using create_stocks_distinct [OF assms that] by auto
  have market: "\<exists>M. mout = map (market_payload wh (call_date wd))
                          (M @ map (\<lambda>i. \<lparr>offer_id = i, stock = 0\<rparr>)
                                 (filter (\<lambda>i. i \<notin> code_of ` set ws) ids))
               \<and> list_all2 emitted_for
                    (filter (\<lambda>w. code_of w \<in> set ids) (first_by_code ws)) M"
    if run: "market_create_stocks ws ids wh wd = (Inr (mout, ids'), wd')" for mout ids' wd'
  proof -
    from market_create_stocks_Inr [OF run] obtain out where
      s: "create_stocks ws ids = Inr (out, ids')"
      and mout: "mout = map (market_payload wh (call_date wd)) out"
      by blast
    from seller [OF s] mout show ?thesis by blast
  qed
  from seller market show ?thesis by blast
qed

theorem create_stocks_order_witness:
  "distinct [''99'', ''33'', ''11'', ''88'']
   \<and> create_stocks
        [\<lparr>Kod = PyInt 11, Kolichestvo = PyInt 3, Tsena = PyStr ''1.00''\<rparr>,
         \<lparr>Kod = PyInt 22, Kolichestvo = PyInt 4, Tsena = PyStr ''2.00''\<rparr>,
         \<lparr>Kod = PyInt 33, Kolichestvo = PyStr ''>10'', Tsena = PyStr ''3.00''\<rparr>]
        [''99'', ''33'', ''11'', ''88'']
      = Inr ([\<lparr>offer_id = ''11'', stock = 3\<rparr>, \<lparr>offer_id = ''33'', stock = 100\<rparr>,
              \<lparr>offer_id = ''99'', stock = 0\<rparr>, \<lparr>offer_id = ''88'', stock = 0\<rparr>],
             [''99'', ''88''])
   \<and> (\<exists>M. [\<lparr>offer_id = ''11'', stock = 3\<rparr>, \<lparr>offer_id = ''33'', stock = 100\<rparr>,
             \<lparr>offer_id = ''99'', stock = 0\<rparr>, \<lparr>offer_id = ''88'', stock = 0\<rparr>]
            = M @ [\<lparr>offer_id = ''99'', stock = 0\<rparr>, \<lparr>offer_id = ''88'', stock = 0\<rparr>]
          \<and> list_all2 emitted_for
               [\<lparr>Kod = PyInt 11, Kolichestvo = PyInt 3, Tsena = PyStr ''1.00''\<rparr>,
                \<lparr>Kod = PyInt 33, Kolichestvo = PyStr ''>10'', Tsena = PyStr ''3.00''\<rparr>] M)"
proof -
  let ?ws = "[\<lparr>Kod = PyInt 11, Kolichestvo = PyInt 3, Tsena = PyStr ''1.00''\<rparr>,
         \<lparr>Kod = PyInt 22, Kolichestvo = PyInt 4, Tsena = PyStr ''2.00''\<rparr>,
         \<lparr>Kod = PyInt 33, Kolichestvo = PyStr ''>10'', Tsena = PyStr ''3.00''\<rparr>]"
  let ?ids = "[''99'', ''33'', ''11'', ''88'']"
  let ?out = "[\<lparr>offer_id = ''11'', stock = 3\<rparr>, \<lparr>offer_id = ''33'', stock = 100\<rparr>,
              \<lparr>offer_id = ''99'', stock = 0\<rparr>, \<lparr>offer_id = ''88'', stock = 0\<rparr>]"
  have d: "distinct ?ids" by simp
  have run: "create_stocks ?ws ?ids = Inr (?out, [''99'', ''88''])"
    by (simp add: eval_defs)
  have stale: "filter (\<lambda>i. i \<notin> code_of ` set ?ws) ?ids = [''99'', ''88'']"
    by (simp add: str_int_def str_nat.simps digit_char_def)
  have matched: "filter (\<lambda>w. code_of w \<in> set ?ids) (first_by_code ?ws)
      = [\<lparr>Kod = PyInt 11, Kolichestvo = PyInt 3, Tsena = PyStr ''1.00''\<rparr>,
         \<lparr>Kod = PyInt 33, Kolichestvo = PyStr ''>10'', Tsena = PyStr ''3.00''\<rparr>]"
    by (simp add: str_int_def str_nat.simps digit_char_def)
  from create_stocks_order [OF d, of ?ws] run
  have "\<exists>M. ?out = M @ map (\<lambda>i. \<lparr>offer_id = i, stock = 0\<rparr>)
                              (filter (\<lambda>i. i \<notin> code_of ` set ?ws) ?ids)
               \<and> list_all2 emitted_for
                    (filter (\<lambda>w. code_of w \<in> set ?ids) (first_by_code ?ws)) M"
    by blast
  then have "\<exists>M. ?out = M @ [\<lparr>offer_id = ''99'', stock = 0\<rparr>, \<lparr>offer_id = ''88'', stock = 0\<rparr>]
          \<and> list_all2 emitted_for
               [\<lparr>Kod = PyInt 11, Kolichestvo = PyInt 3, Tsena = PyStr ''1.00''\<rparr>,
                \<lparr>Kod = PyInt 33, Kolichestvo = PyStr ''>10'', Tsena = PyStr ''3.00''\<rparr>] M"
    unfolding stale matched by simp
  with d run show ?thesis by blast
qed

text \<open>
  As C4 is stated, for every list of offer ids, it fails on a list that repeats an id.
  With one remnant of code \<open>7\<close> and quantity \<open>5\<close> and the offer ids \<open>7, 7\<close>, the
  remnant is matched and no offer id is stale, so the stated order gives the one
  payload of count \<open>5\<close>; the returned list has a second payload, of count \<open>0\<close>, for
  the offer id \<open>7\<close>.
\<close>

theorem create_stocks_order_repeated_offer_id:
  "create_stocks [\<lparr>Kod = PyInt 7, Kolichestvo = PyInt 5, Tsena = PyStr ''10.00''\<rparr>] [''7'', ''7'']
     = Inr ([\<lparr>offer_id = ''7'', stock = 5\<rparr>, \<lparr>offer_id = ''7'', stock = 0\<rparr>], [''7''])
   \<and> filter (\<lambda>w. code_of w \<in> set [''7'', ''7''])
        [\<lparr>Kod = PyInt 7, Kolichestvo = PyInt 5, Tsena = PyStr ''10.00''\<rparr>]
     = [\<lparr>Kod = PyInt 7, Kolichestvo = PyInt 5, Tsena = PyStr ''10.00''\<rparr>]
   \<and> resolve_stock (PyInt 5) = Inr 5
   \<and> filter (\<lambda>i. i \<notin> code_of ` set [\<lparr>Kod = PyInt 7, Kolichestvo = PyInt 5,
                                         Tsena = PyStr ''10.00''\<rparr>]) [''7'', ''7'']
     = []
   \<and> [\<lparr>offer_id = ''7'', stock = 5\<rparr>, \<lparr>offer_id = ''7'', stock = 0\<rparr>]
     \<noteq> [\<lparr>offer_id = ''7'', stock = 5\<rparr>] @ map (\<lambda>i. \<lparr>offer_id = i, stock = 0\<rparr>) []"
  by (simp add: eval_defs)

lemma first_by_code_filter_code:
  assumes "code_of w \<notin> code_of ` set ws1"
  shows "filter (\<lambda>v. code_of v = code_of w) (first_by_code (ws1 @ w # ws2)) = [w]"
  using assms
proof (induction ws1)
  case Nil
  have "filter (\<lambda>v. code_of v = code_of w)
          (filter (\<lambda>v. code_of v \<noteq> code_of w) (first_by_code ws2)) = []"
    by (simp add: filter_empty_conv)
  then show ?case by simp
next
  case (Cons a ws1)
  then have ne: "code_of a \<noteq> code_of w" and rest: "code_of w \<notin> code_of ` set ws1"
    by auto
  have "filter (\<lambda>v. code_of v = code_of w)
          (filter (\<lambda>v. code_of v \<noteq> code_of a) (first_by_code (ws1 @ w # ws2)))
        = filter (\<lambda>v. code_of v = code_of w) (first_by_code (ws1 @ w # ws2))"
    using ne by (auto intro: filter_cong)
  with Cons.IH [OF rest] ne show ?case by simp
qed

lemma emitted_filter:
  "list_all2 emitted_for ms M \<Longrightarrow>
     list_all2 emitted_for (filter (\<lambda>v. code_of v = c) ms) (filter (\<lambda>p. offer_id p = c) M)"
  by (induction rule: list_all2_induct) (auto simp: emitted_for_def)

lemma emitted_single:
  "list_all2 emitted_for [w] F \<Longrightarrow>
     \<exists>st. resolve_stock (Kolichestvo w) = Inr st \<and> F = [\<lparr>offer_id = code_of w, stock = st\<rparr>]"
  by (cases F) (auto simp: emitted_for_def)

lemma first_of_code_emitted:
  assumes d: "distinct ids" and c: "code_of w \<in> set ids"
    and first: "code_of w \<notin> code_of ` set ws1"
    and run: "create_stocks (ws1 @ w # ws2) ids = Inr (out, ids')"
  shows "\<exists>st. resolve_stock (Kolichestvo w) = Inr st
           \<and> filter (\<lambda>p. offer_id p = code_of w) out = [\<lparr>offer_id = code_of w, stock = st\<rparr>]"
proof -
  let ?ws = "ws1 @ w # ws2"
  from create_stocks_distinct [OF d run] obtain M where
    ids': "ids' = filter (\<lambda>i. i \<notin> code_of ` set ?ws) ids"
    and out: "out = M @ map (\<lambda>i. \<lparr>offer_id = i, stock = 0\<rparr>) ids'"
    and M: "list_all2 emitted_for (filter (\<lambda>v. code_of v \<in> set ids) (first_by_code ?ws)) M"
    by blast
  have "code_of w \<notin> set ids'" by (simp add: ids')
  then have zeros: "filter (\<lambda>p. offer_id p = code_of w) (map (\<lambda>i. \<lparr>offer_id = i, stock = 0\<rparr>) ids') = []"
    by (auto simp: filter_empty_conv)
  have "filter (\<lambda>v. code_of v = code_of w) (filter (\<lambda>v. code_of v \<in> set ids) (first_by_code ?ws))
        = filter (\<lambda>v. code_of v \<in> set ids) (filter (\<lambda>v. code_of v = code_of w) (first_by_code ?ws))"
    by (simp add: conj_commute)
  also have "\<dots> = [w]"
    using c by (simp add: first_by_code_filter_code [OF first])
  finally have "list_all2 emitted_for [w] (filter (\<lambda>p. offer_id p = code_of w) M)"
    using emitted_filter [OF M, of "code_of w"] by simp
  from emitted_single [OF this] zeros show ?thesis by (simp add: out)
qed

text \<open>
  C9, as the code has it. When the offer ids are pairwise distinct and a code that is
  an offer id occurs in several remnant records, the list \<open>create_stocks\<close> returns has
  exactly one payload for that code, and it carries the count of the first record of
  that code: the first match removes the offer id, and the later records of the code
  match nothing.
\<close>

theorem first_remnant_of_a_code_wins:
  assumes "distinct ids" and "code_of w \<in> set ids" and "code_of w \<notin> code_of ` set ws1"
  shows "(\<forall>out ids'. create_stocks (ws1 @ w # ws2) ids = Inr (out, ids') \<longrightarrow>
            (\<exists>st. resolve_stock (Kolichestvo w) = Inr st
               \<and> filter (\<lambda>p. offer_id p = code_of w) out
                   = [\<lparr>offer_id = code_of w, stock = st\<rparr>]))
       \<and> (\<forall>mout ids' wd'.
            market_create_stocks (ws1 @ w # ws2) ids wh wd = (Inr (mout, ids'), wd') \<longrightarrow>
            (\<exists>st. resolve_stock (Kolichestvo w) = Inr st
               \<and> filter (\<lambda>q. sku q = code_of w) mout
                   = [market_payload wh (call_date wd) \<lparr>offer_id = code_of w, stock = st\<rparr>]))"
proof -
  have market: "\<exists>st. resolve_stock (Kolichestvo w) = Inr st
               \<and> filter (\<lambda>q. sku q = code_of w) mout
                   = [market_payload wh (call_date wd) \<lparr>offer_id = code_of w, stock = st\<rparr>]"
    if run: "market_create_stocks (ws1 @ w # ws2) ids wh wd = (Inr (mout, ids'), wd')"
    for mout ids' wd'
  proof -
    from market_create_stocks_Inr [OF run] obtain out where
      s: "create_stocks (ws1 @ w # ws2) ids = Inr (out, ids')"
      and mout: "mout = map (market_payload wh (call_date wd)) out"
      by blast
    have "filter (\<lambda>q. sku q = code_of w) mout
            = map (market_payload wh (call_date wd)) (filter (\<lambda>p. offer_id p = code_of w) out)"
      by (simp add: mout filter_map comp_def market_payload_def)
    with first_of_code_emitted [OF assms s] show ?thesis by auto
  qed
  with first_of_code_emitted [OF assms] show ?thesis by blast
qed

theorem first_remnant_of_a_code_wins_witness:
  "distinct [''7'']
   \<and> code_of \<lparr>Kod = PyInt 7, Kolichestvo = PyInt 5, Tsena = PyStr ''10.00''\<rparr> \<in> set [''7'']
   \<and> code_of \<lparr>Kod = PyInt 7, Kolichestvo = PyInt 5, Tsena = PyStr ''10.00''\<rparr>
       \<notin> code_of ` set []
   \<and> (\<exists>out ids'.
         create_stocks
           ([] @ \<lparr>Kod = PyInt 7, Kolichestvo = PyInt 5, Tsena = PyStr ''10.00''\<rparr>
               # [\<lparr>Kod = PyInt 7, Kolichestvo = PyInt 9, Tsena = PyStr ''10.00''\<rparr>])
           [''7'']
         = Inr (out, ids')
         \<and> filter (\<lambda>p. offer_id p = ''7'') out = [\<lparr>offer_id = ''7'', stock = 5\<rparr>])"
proof -
  let ?w = "\<lparr>Kod = PyInt 7, Kolichestvo = PyInt 5, Tsena = PyStr ''10.00''\<rparr>"
  let ?ws2 = "[\<lparr>Kod = PyInt 7, Kolichestvo = PyInt 9, Tsena = PyStr ''10.00''\<rparr>]"
  have d: "distinct [''7'']" by simp
  have c: "code_of ?w \<in> set [''7'']" by (simp add: str_int_def str_nat.simps digit_char_def)
  have f: "code_of ?w \<notin> code_of ` set []" by simp
  obtain out ids' where run: "create_stocks ([] @ ?w # ?ws2) [''7''] = Inr (out, ids')"
    by (simp add: eval_defs)
  from first_remnant_of_a_code_wins [OF d c f, of ?ws2] run
  obtain st where "resolve_stock (Kolichestvo ?w) = Inr st"
    and "filter (\<lambda>p. offer_id p = code_of ?w) out = [\<lparr>offer_id = code_of ?w, stock = st\<rparr>]"
    by blast
  then have "filter (\<lambda>p. offer_id p = ''7'') out = [\<lparr>offer_id = ''7'', stock = 5\<rparr>]"
    by (simp add: resolve_stock_def str_int_def str_nat.simps digit_char_def)
  with d c f run show ?thesis by blast
qed

text \<open>
  As C9 is stated, the last record of a code wins; the code does the opposite. With the
  remnants of code \<open>7\<close> and quantities \<open>5\<close>, then \<open>9\<close>, and the offer id \<open>7\<close>,
  the one payload returned has count \<open>5\<close>, the first record's, and not \<open>9\<close>.
\<close>

theorem last_remnant_of_a_code_skipped:
  "create_stocks
     [\<lparr>Kod = PyInt 7, Kolichestvo = PyInt 5, Tsena = PyStr ''10.00''\<rparr>,
      \<lparr>Kod = PyInt 7, Kolichestvo = PyInt 9, Tsena = PyStr ''10.00''\<rparr>]
     [''7'']
   = Inr ([\<lparr>offer_id = ''7'', stock = 5\<rparr>], [])
   \<and> resolve_stock (Kolichestvo \<lparr>Kod = PyInt 7, Kolichestvo = PyInt 9, Tsena = PyStr ''10.00''\<rparr>)
     = Inr 9
   \<and> stock \<lparr>offer_id = ''7'', stock = 5\<rparr> \<noteq> 9"
  by (simp add: eval_defs)











lemma int_of_str_separator_rejected: "int_of_str [CHR 0x1C, CHR ''5''] = Inl ValueError"
  by (simp add: int_of_str_def strip_def is_space_def is_digit_def)


















end
